theory Spec2Isabelle
  imports Main "HOL-Library.AList" "HOL-Library.Char_ord" "HOL-Library.List_Lexorder"
begin

section \<open>JavaScript values, strings and plain objects\<close>

text \<open>
  Strings are lists of code units below 256 (\<^typ>\<open>string\<close>); the order on them
  (\<open>Char_ord\<close> with \<open>List_Lexorder\<close>) is the code-unit order that the default
  comparison of \<open>Array.prototype.sort\<close> uses.

  A field read from JSON is a \<open>jsval\<close>; \<open>JUndefined\<close> is a missing field and
  \<open>JNum n\<close> a number written as the integer \<open>n\<close>.
\<close>

datatype jsval = JUndefined | JNull | JBool bool | JNum int | JStr string

text \<open>
  The numbers of the script are doubles. The ones that occur here have integral values,
  and an integer stands for the double nearest to it: \<open>toDouble\<close> rounds to 53
  significant bits, a tie to the even significand, so that every integer up to
  \<open>maxSafe\<close> in magnitude is kept as it is and \<open>2^53 + 1\<close> becomes \<open>2^53\<close>. (Values
  from \<open>2^1024\<close> on, which the script holds as \<open>Infinity\<close>, are outside this model.)
  \<open>jsAdd\<close> is the \<open>+\<close> of two such numbers.
\<close>

definition maxSafe :: int where
  "maxSafe = 9007199254740991"

function bitLength :: "int \<Rightarrow> nat" where
  "bitLength n = (if n \<le> 0 then 0 else Suc (bitLength (n div 2)))"
  by pat_completeness auto
termination
  by (relation "measure nat") auto

declare bitLength.simps [simp del]

definition roundAbs :: "int \<Rightarrow> int" where
  "roundAbs n =
     (if n \<le> 9007199254740992 then n
      else
        let e = bitLength n - 53;
            q = n div 2 ^ e;
            r = n mod 2 ^ e;
            h = 2 ^ (e - 1)
        in (if h < r \<or> (r = h \<and> odd q) then q + 1 else q) * 2 ^ e)"

definition toDouble :: "int \<Rightarrow> int" where
  "toDouble n = (if n < 0 then - roundAbs (- n) else roundAbs n)"

definition jsAdd :: "int \<Rightarrow> int \<Rightarrow> int" where
  "jsAdd a b = toDouble (a + b)"

definition isDigit :: "char \<Rightarrow> bool" where
  "isDigit c = (CHR ''0'' \<le> c \<and> c \<le> CHR ''9'')"

text \<open>\<open>String.prototype.toLowerCase\<close> on code units below 256: the letters
  \<open>A\<close>..\<open>Z\<close> and the capital letters of Latin-1 (192..222 without the
  multiplication sign 215) move up by 32, every other code unit stays.\<close>

definition isUpper :: "char \<Rightarrow> bool" where
  "isUpper c =
     (let n = (of_char c :: nat) in
      (65 \<le> n \<and> n \<le> 90) \<or> (192 \<le> n \<and> n \<le> 214) \<or> (216 \<le> n \<and> n \<le> 222))"

definition lowerChar :: "char \<Rightarrow> char" where
  "lowerChar c = (if isUpper c then char_of (of_char c + (32::nat)) else c)"

definition toLowerCase :: "string \<Rightarrow> string" where
  "toLowerCase s = map lowerChar s"

fun startsWith :: "string \<Rightarrow> string \<Rightarrow> bool" where
  "startsWith s [] = True"
| "startsWith [] (n # ns) = False"
| "startsWith (c # cs) (n # ns) = (c = n \<and> startsWith cs ns)"

text \<open>\<open>String.prototype.includes\<close>: the needle starts at some position of the string.\<close>

fun includesStr :: "string \<Rightarrow> string \<Rightarrow> bool" where
  "includesStr [] n = (n = [])"
| "includesStr (c # cs) n = (startsWith (c # cs) n \<or> includesStr cs n)"

text \<open>
  A plain object \<open>{}\<close> used as a dictionary: its own enumerable properties in creation
  order. Reading \<open>obj[k]\<close> also finds what \<open>Object.prototype\<close> provides under the names
  below (all truthy), and the assignment \<open>obj['__proto__'] = v\<close> runs the prototype
  setter and creates no own property. Any other assignment creates the own property, or
  replaces its value in place. (JavaScript enumerates keys that look like array indices
  before the others; nothing below depends on the order of the list, as the only
  enumeration that reaches the output is sorted.)
\<close>

type_synonym 'v obj = "(string \<times> 'v) list"

definition objectPrototype :: "string list" where
  "objectPrototype =
     [''constructor'', ''__defineGetter__'', ''__defineSetter__'', ''hasOwnProperty'',
      ''__lookupGetter__'', ''__lookupSetter__'', ''isPrototypeOf'', ''propertyIsEnumerable'',
      ''toString'', ''valueOf'', ''__proto__'', ''toLocaleString'']"

definition assign :: "'v obj \<Rightarrow> string \<Rightarrow> 'v \<Rightarrow> 'v obj" where
  "assign ob k v = (if k = ''__proto__'' then ob else AList.update k v ob)"

definition keys :: "'v obj \<Rightarrow> string list" where
  "keys ob = map fst ob"

section \<open>update-stats-history.js\<close>

subsection \<open>Data\<close>

record daily_stat =
  runs :: int
  passed :: int
  failed :: int

record day_entry =
  date :: string
  totals :: daily_stat
  platforms :: "daily_stat obj"
  environments :: "daily_stat obj"

text \<open>
  One element of the manifest with its text fields read: each holds a string, as
  \<open>generate-manifest.sh\<close> writes them, or nothing (\<open>None\<close>) where the field is
  missing or otherwise falsy; \<open>passed\<close> and \<open>failed\<close> are written unquoted and may
  be a string, an integer, a truth value, \<open>null\<close> or missing.
\<close>

record report =
  timestamp :: "string option"
  environment :: "string option"
  job :: "string option"
  rpassed :: jsval
  rfailed :: jsval

text \<open>
  One element of the manifest as \<open>JSON.parse\<close> returns it: any of the five fields may
  hold any value.
\<close>

record json_report =
  j_timestamp :: jsval
  j_environment :: jsval
  j_job :: jsval
  j_passed :: jsval
  j_failed :: jsval

record history =
  lastUpdated :: "string option"
  entries :: "day_entry list"

subsection \<open>Classifiers\<close>

text \<open>\<open>(x || '')\<close> for a string or missing field.\<close>

definition orEmpty :: "string option \<Rightarrow> string" where
  "orEmpty x = (case x of None \<Rightarrow> [] | Some s \<Rightarrow> s)"

definition detectPlatform :: "string option \<Rightarrow> string" where
  "detectPlatform jb =
     (let j = toLowerCase (orEmpty jb) in
      if includesStr j ''android'' then ''android''
      else if includesStr j ''ios'' then ''ios''
      else if includesStr j ''browser'' \<or> includesStr j ''desktop'' \<or> includesStr j ''responsive''
        then ''browser''
      else ''other'')"

definition normalizeEnv :: "string option \<Rightarrow> string" where
  "normalizeEnv env =
     (let e = toLowerCase (orEmpty env) in
      if includesStr e ''sandbox'' then ''sandbox''
      else if includesStr e ''staging'' then ''staging''
      else if includesStr e ''flux'' then ''flux''
      else if includesStr e ''local'' then ''local''
      else if e = [] then ''unknown'' else e)"

text \<open>The pattern \<open>\d{4}-\d{2}-\d{2}\<close>, one class per position: \<open>d\<close> stands for a
  decimal digit, \<open>-\<close> for itself.\<close>

definition matchClass :: "char \<Rightarrow> char \<Rightarrow> bool" where
  "matchClass k c = (if k = CHR ''d'' then isDigit c else c = k)"

definition isDate :: "string \<Rightarrow> bool" where
  "isDate s = list_all2 matchClass ''dddd-dd-dd'' s"

definition extractDate :: "string option \<Rightarrow> string option" where
  "extractDate ts =
     (case ts of
        None \<Rightarrow> None
      | Some t \<Rightarrow>
          if t = [] then None
          else if isDate (take 10 t) then Some (take 10 t) else None)"

subsection \<open>parseInt\<close>

text \<open>
  \<open>parseInt(v)\<close> with no radix; \<open>None\<close> is NaN. The argument is turned into a string
  first: \<open>undefined\<close>, \<open>null\<close>, \<open>true\<close> and \<open>false\<close> give words with no digit, a
  number below \<open>10^21\<close> in magnitude gives its decimal digits. On a string: leading
  white space is skipped, then an optional sign, then \<open>0x\<close> or \<open>0X\<close> selects radix
  16, and the longest run of digits is read; no digit at all is NaN. The integer read is
  returned as a number, that is rounded by \<open>toDouble\<close>.
\<close>

definition isWhite :: "char \<Rightarrow> bool" where
  "isWhite c = (of_char c \<in> {9, 10, 11, 12, 13, 32, 160 :: nat})"

definition hexVal :: "char \<Rightarrow> int option" where
  "hexVal c =
     (if isDigit c then Some (of_char c - 48)
      else if CHR ''a'' \<le> c \<and> c \<le> CHR ''f'' then Some (of_char c - 87)
      else if CHR ''A'' \<le> c \<and> c \<le> CHR ''F'' then Some (of_char c - 55)
      else None)"

definition decVal :: "char \<Rightarrow> int option" where
  "decVal c = (if isDigit c then Some (of_char c - 48) else None)"

fun readDigits :: "(char \<Rightarrow> int option) \<Rightarrow> int \<Rightarrow> int option \<Rightarrow> string \<Rightarrow> int option" where
  "readDigits val radix acc [] = acc"
| "readDigits val radix acc (c # cs) =
     (case val c of
        None \<Rightarrow> acc
      | Some d \<Rightarrow> readDigits val radix (Some ((case acc of None \<Rightarrow> 0 | Some a \<Rightarrow> a) * radix + d)) cs)"

definition readUnsigned :: "string \<Rightarrow> int option" where
  "readUnsigned s =
     (if startsWith s ''0x'' \<or> startsWith s ''0X''
      then readDigits hexVal 16 None (drop 2 s)
      else readDigits decVal 10 None s)"

definition parseIntStr :: "string \<Rightarrow> int option" where
  "parseIntStr s =
     (let t = dropWhile isWhite s in
      case t of
        [] \<Rightarrow> None
      | c # cs \<Rightarrow>
          if c = CHR ''-'' then map_option (\<lambda>n. toDouble (- n)) (readUnsigned cs)
          else if c = CHR ''+'' then map_option toDouble (readUnsigned cs)
          else map_option toDouble (readUnsigned t))"

text \<open>
  A number from \<open>10^21\<close> on is printed in exponent notation, one digit before the point
  or the \<open>e\<close>, and \<open>parseInt\<close> reads that digit. The digits printed are the
  shortest string of digits that denotes the number: with \<open>k\<close> digits, the
  candidates are the two multiples of the power of ten next to the number.
\<close>

function decLength :: "int \<Rightarrow> nat" where
  "decLength n = (if n < 10 then 1 else Suc (decLength (n div 10)))"
  by pat_completeness auto
termination
  by (relation "measure nat") auto

declare decLength.simps [simp del]

fun leadFrom :: "int \<Rightarrow> nat \<Rightarrow> nat \<Rightarrow> nat \<Rightarrow> int" where
  "leadFrom v len k 0 = v div 10 ^ (len - 1)"
| "leadFrom v len k (Suc fuel) =
     (let m = len - k;
          lo = v div 10 ^ m;
          hi = lo + 1;
          okLo = (roundAbs (lo * 10 ^ m) = v);
          okHi = (roundAbs (hi * 10 ^ m) = v);
          s = (if okLo \<and> okHi then (if v - lo * 10 ^ m \<le> hi * 10 ^ m - v then lo else hi)
               else if okLo then lo else hi)
      in if okLo \<or> okHi then (if s = 10 ^ k then 1 else s div 10 ^ (k - 1))
         else leadFrom v len (Suc k) fuel)"

definition leadingDigit :: "int \<Rightarrow> int" where
  "leadingDigit v = leadFrom v (decLength v) 1 17"

definition parseIntNum :: "int \<Rightarrow> int" where
  "parseIntNum n =
     (let v = toDouble n in
      if \<bar>v\<bar> < 10 ^ 21 then v
      else if v < 0 then - leadingDigit (- v) else leadingDigit v)"

fun parseInt :: "jsval \<Rightarrow> int option" where
  "parseInt (JNum n) = Some (parseIntNum n)"
| "parseInt (JStr s) = parseIntStr s"
| "parseInt JUndefined = None"
| "parseInt JNull = None"
| "parseInt (JBool b) = None"

text \<open>\<open>parseInt(v) || 0\<close>: NaN and 0 both give 0.\<close>

definition parseIntOr0 :: "jsval \<Rightarrow> int" where
  "parseIntOr0 v = (case parseInt v of None \<Rightarrow> 0 | Some n \<Rightarrow> n)"

subsection \<open>Aggregation of the manifest by date\<close>

definition emptyStat :: daily_stat where
  "emptyStat = \<lparr>runs = 0, passed = 0, failed = 0\<rparr>"

definition bumpStat :: "daily_stat \<Rightarrow> int \<Rightarrow> int \<Rightarrow> daily_stat" where
  "bumpStat s p f =
     \<lparr>runs = jsAdd (runs s) 1, passed = jsAdd (passed s) p, failed = jsAdd (failed s) f\<rparr>"

text \<open>
  The three statements \<open>if (!o[k]) o[k] = {runs: 0, passed: 0, failed: 0}; o[k].runs++;
  o[k].passed += p; o[k].failed += f\<close>. When \<open>k\<close> is no own property but a name of
  \<open>Object.prototype\<close>, \<open>o[k]\<close> is truthy, nothing is created, and the three updates
  land on the inherited object: \<open>o\<close> keeps its own properties as they were.
\<close>

definition bumpTag :: "daily_stat obj \<Rightarrow> string \<Rightarrow> int \<Rightarrow> int \<Rightarrow> daily_stat obj" where
  "bumpTag ob k p f =
     (case map_of ob k of
        Some s \<Rightarrow> AList.update k (bumpStat s p f) ob
      | None \<Rightarrow>
          if k \<in> set objectPrototype then ob
          else assign ob k (bumpStat emptyStat p f))"

definition freshDay :: "string \<Rightarrow> day_entry" where
  "freshDay d = \<lparr>date = d, totals = emptyStat, platforms = [], environments = []\<rparr>"

text \<open>
  The body of \<open>manifest.forEach\<close>. The key \<open>date\<close> has the shape of \<open>isDate\<close>, so it is
  never a name of \<open>Object.prototype\<close> and \<open>newDataByDate[date]\<close> is the own property or
  \<open>undefined\<close>. The entry is mutated in place: it stays at its position.
\<close>

definition addReport :: "day_entry obj \<Rightarrow> report \<Rightarrow> day_entry obj" where
  "addReport newDataByDate r =
     (case extractDate (timestamp r) of
        None \<Rightarrow> newDataByDate
      | Some d \<Rightarrow>
          let platform = detectPlatform (job r);
              env = normalizeEnv (environment r);
              p = parseIntOr0 (rpassed r);
              f = parseIntOr0 (rfailed r);
              day = (case map_of newDataByDate d of None \<Rightarrow> freshDay d | Some e \<Rightarrow> e)
          in AList.update d
               (day\<lparr>totals := bumpStat (totals day) p f,
                    platforms := bumpTag (platforms day) platform p f,
                    environments := bumpTag (environments day) env p f\<rparr>)
               newDataByDate)"

definition aggregate :: "report list \<Rightarrow> day_entry obj" where
  "aggregate manifest = foldl addReport [] manifest"

subsection \<open>Merge with the stored history\<close>

text \<open>
  \<open>existingMap\<close>: every stored entry under its date, a later entry of the same date
  replacing an earlier one. Then every key of \<open>newDataByDate\<close> is assigned into it, and
  the result is read out along its sorted keys.
\<close>

definition indexByDate :: "day_entry list \<Rightarrow> day_entry obj" where
  "indexByDate es = foldl (\<lambda>m e. assign m (date e) e) [] es"

definition mergeNew :: "day_entry obj \<Rightarrow> day_entry obj \<Rightarrow> day_entry obj" where
  "mergeNew existingMap newDataByDate =
     foldl (\<lambda>m d. case map_of newDataByDate d of None \<Rightarrow> m | Some e \<Rightarrow> assign m d e)
       existingMap (keys newDataByDate)"

definition sortedValues :: "'v obj \<Rightarrow> 'v list" where
  "sortedValues ob = List.map_filter (map_of ob) (sort (keys ob))"

definition mergedEntries :: "day_entry list \<Rightarrow> report list \<Rightarrow> day_entry list" where
  "mergedEntries old manifest = sortedValues (mergeNew (indexByDate old) (aggregate manifest))"

subsection \<open>The files and the run\<close>

text \<open>
  The two files as \<open>fs.existsSync\<close> and \<open>JSON.parse\<close> show them. Without a
  manifest the script prints an error and exits with status 1; a manifest that does not
  parse ends the script with the uncaught exception. \<open>Corrupt\<close> is a stats file on which
  the \<open>try\<close> block throws: its text does not parse, or the value has no \<open>entries\<close>
  to take the length of.

  \<open>main\<close> takes the value of \<open>new Date().toISOString()\<close> as its first argument. A
  successful run yields what it hands to \<open>fs.writeFileSync\<close> and the lines it prints,
  each line as its kind and the values shown in it.
\<close>

datatype manifest_file = NoManifest | BadManifest | Manifest "report list"

datatype stats_file = NoStats | Corrupt | Stats history

datatype failure = Exit1 | UncaughtSyntaxError | UncaughtTypeError

datatype console =
    ReadEntries nat
  | ExistingHistory nat
  | CouldNotParse
  | Updated nat
  | ManifestRange string string
  | HistorySpan string string

definition emptyHistory :: history where
  "emptyHistory = \<lparr>lastUpdated = None, entries = []\<rparr>"

definition loadHistory :: "stats_file \<Rightarrow> history \<times> console list" where
  "loadHistory f =
     (case f of
        NoStats \<Rightarrow> (emptyHistory, [])
      | Corrupt \<Rightarrow> (emptyHistory, [CouldNotParse])
      | Stats h \<Rightarrow> (h, [ExistingHistory (length (entries h))]))"

record run =
  written :: history
  out :: "console list"

definition spanLine :: "(string \<Rightarrow> string \<Rightarrow> console) \<Rightarrow> string list \<Rightarrow> console list" where
  "spanLine mk ds = (case ds of [] \<Rightarrow> [] | d # _ \<Rightarrow> [mk d (last ds)])"

definition main :: "string \<Rightarrow> manifest_file \<Rightarrow> stats_file \<Rightarrow> failure + run" where
  "main now mf sf =
     (case mf of
        NoManifest \<Rightarrow> Inl Exit1
      | BadManifest \<Rightarrow> Inl UncaughtSyntaxError
      | Manifest manifest \<Rightarrow>
          let (hist, l1) = loadHistory sf;
              merged = mergedEntries (entries hist) manifest
          in Inr \<lparr>written = \<lparr>lastUpdated = Some now, entries = merged\<rparr>,
                  out = [ReadEntries (length manifest)] @ l1 @ [Updated (length merged)]
                        @ spanLine ManifestRange (sort (keys (aggregate manifest)))
                        @ spanLine HistorySpan (map date merged)\<rparr>)"

subsection \<open>The run on the manifest as parsed\<close>

text \<open>
  \<open>report\<close> holds the text fields as the script uses them: a string, or nothing where
  the field is falsy. A field that is truthy and no string has no \<open>match\<close> and no
  \<open>toLowerCase\<close>, and the call throws a \<open>TypeError\<close> that nothing catches.
  \<open>extractDate\<close> is called first; \<open>detectPlatform\<close> and \<open>normalizeEnv\<close> are
  reached by a record with a date only. The exception ends the script before anything is
  written. Where no field throws, \<open>mainJson\<close> is \<open>main\<close> on the records with their text
  fields read.
\<close>

definition truthy :: "jsval \<Rightarrow> bool" where
  "truthy v =
     (case v of
        JUndefined \<Rightarrow> False
      | JNull \<Rightarrow> False
      | JBool b \<Rightarrow> b
      | JNum n \<Rightarrow> n \<noteq> 0
      | JStr s \<Rightarrow> s \<noteq> [])"

definition asText :: "jsval \<Rightarrow> failure + string option" where
  "asText v =
     (case v of
        JStr s \<Rightarrow> Inr (Some s)
      | _ \<Rightarrow> if truthy v then Inl UncaughtTypeError else Inr None)"

definition addJson :: "day_entry obj \<Rightarrow> json_report \<Rightarrow> failure + day_entry obj" where
  "addJson newDataByDate j =
     (case asText (j_timestamp j) of
        Inl x \<Rightarrow> Inl x
      | Inr ts \<Rightarrow>
          (case extractDate ts of
             None \<Rightarrow> Inr newDataByDate
           | Some d \<Rightarrow>
               (case asText (j_job j) of
                  Inl x \<Rightarrow> Inl x
                | Inr jb \<Rightarrow>
                    (case asText (j_environment j) of
                       Inl x \<Rightarrow> Inl x
                     | Inr env \<Rightarrow>
                         Inr (addReport newDataByDate
                                \<lparr>timestamp = ts, environment = env, job = jb,
                                 rpassed = j_passed j, rfailed = j_failed j\<rparr>)))))"

fun aggregateJson :: "day_entry obj \<Rightarrow> json_report list \<Rightarrow> failure + day_entry obj" where
  "aggregateJson newDataByDate [] = Inr newDataByDate"
| "aggregateJson newDataByDate (j # js) =
     (case addJson newDataByDate j of
        Inl x \<Rightarrow> Inl x
      | Inr m \<Rightarrow> aggregateJson m js)"

datatype manifest_json = NoManifestJson | BadManifestJson | ManifestJson "json_report list"

definition mainJson :: "string \<Rightarrow> manifest_json \<Rightarrow> stats_file \<Rightarrow> failure + run" where
  "mainJson now mf sf =
     (case mf of
        NoManifestJson \<Rightarrow> Inl Exit1
      | BadManifestJson \<Rightarrow> Inl UncaughtSyntaxError
      | ManifestJson manifest \<Rightarrow>
          let (hist, l1) = loadHistory sf in
          (case aggregateJson [] manifest of
             Inl x \<Rightarrow> Inl x
           | Inr newDataByDate \<Rightarrow>
               let merged = sortedValues (mergeNew (indexByDate (entries hist)) newDataByDate)
               in Inr \<lparr>written = \<lparr>lastUpdated = Some now, entries = merged\<rparr>,
                       out = [ReadEntries (length manifest)] @ l1 @ [Updated (length merged)]
                             @ spanLine ManifestRange (sort (keys newDataByDate))
                             @ spanLine HistorySpan (map date merged)\<rparr>))"

section \<open>fix-stats-from-allure-data.js\<close>

text \<open>
  \<open>countFromSummary\<close> reads \<open>widgets/summary.json\<close>: the file may be missing, may
  not parse, or may lack \<open>statistic\<close>; each count of the statistic is a number,
  written as an integer, or is missing, and \<open>x || 0\<close> turns a missing count (and 0)
  into 0. The two sums are sums of doubles.
\<close>

record statistic =
  st_passed :: "int option"
  st_failed :: "int option"
  st_broken :: "int option"
  st_skipped :: "int option"
  st_unknown :: "int option"

record detail =
  d_passed :: int
  d_failed :: int
  d_broken :: int
  d_skipped :: int
  d_unknown :: int

record counts =
  c_passed :: int
  c_failed :: int
  c_total :: int
  c_detail :: detail

datatype summary_file = NoSummary | BadSummary | Summary "statistic option"

definition orZero :: "int option \<Rightarrow> int" where
  "orZero x = (case x of None \<Rightarrow> 0 | Some n \<Rightarrow> toDouble n)"

definition countFromSummary :: "summary_file \<Rightarrow> counts option" where
  "countFromSummary f =
     (case f of
        NoSummary \<Rightarrow> None
      | BadSummary \<Rightarrow> None
      | Summary None \<Rightarrow> None
      | Summary (Some stat) \<Rightarrow>
          let passed = orZero (st_passed stat);
              failed = orZero (st_failed stat);
              broken = orZero (st_broken stat);
              skipped = orZero (st_skipped stat);
              unknown = orZero (st_unknown stat)
          in Some \<lparr>c_passed = passed,
                    c_failed = jsAdd failed broken,
                    c_total = jsAdd (jsAdd passed failed) broken,
                    c_detail = \<lparr>d_passed = passed, d_failed = failed, d_broken = broken,
                                d_skipped = skipped, d_unknown = unknown\<rparr>\<rparr>)"

section \<open>The rule tables of the specification\<close>

definition contains :: "string \<Rightarrow> string \<Rightarrow> bool" where
  "contains s n \<longleftrightarrow> (\<exists>a b. s = a @ n @ b)"

fun firstRule :: "(string list \<times> string) list \<Rightarrow> string \<Rightarrow> string option" where
  "firstRule [] s = None"
| "firstRule ((needles, tag) # rules) s =
     (if list_ex (contains s) needles then Some tag else firstRule rules s)"

definition platformRules :: "(string list \<times> string) list" where
  "platformRules =
     [([''android''], ''android''),
      ([''ios''], ''ios''),
      ([''browser'', ''desktop'', ''responsive''], ''browser'')]"

definition environmentRules :: "(string list \<times> string) list" where
  "environmentRules =
     [([''sandbox''], ''sandbox''),
      ([''staging''], ''staging''),
      ([''flux''], ''flux''),
      ([''local''], ''local'')]"

section \<open>Auxiliary notions for the proofs\<close>

definition good :: "day_entry obj \<Rightarrow> bool" where
  "good m \<longleftrightarrow> distinct (keys m) \<and> (\<forall>k e. map_of m k = Some e \<longrightarrow> date e = k)"

definition stepDay :: "day_entry \<Rightarrow> report \<Rightarrow> day_entry" where
  "stepDay day r =
     day\<lparr>totals := bumpStat (totals day) (parseIntOr0 (rpassed r)) (parseIntOr0 (rfailed r)),
         platforms := bumpTag (platforms day) (detectPlatform (job r))
                        (parseIntOr0 (rpassed r)) (parseIntOr0 (rfailed r)),
         environments := bumpTag (environments day) (normalizeEnv (environment r))
                        (parseIntOr0 (rpassed r)) (parseIntOr0 (rfailed r))\<rparr>"

definition dayOr :: "day_entry obj \<Rightarrow> string \<Rightarrow> day_entry" where
  "dayOr m d = (case map_of m d of None \<Rightarrow> freshDay d | Some e \<Rightarrow> e)"

definition recordsOf :: "report list \<Rightarrow> string \<Rightarrow> report list" where
  "recordsOf manifest d = filter (\<lambda>r. extractDate (timestamp r) = Some d) manifest"

definition sumStat :: "report list \<Rightarrow> daily_stat" where
  "sumStat rs =
     \<lparr>runs = int (length rs),
      passed = sum_list (map (\<lambda>r. parseIntOr0 (rpassed r)) rs),
      failed = sum_list (map (\<lambda>r. parseIntOr0 (rfailed r)) rs)\<rparr>"

definition addStat :: "daily_stat \<Rightarrow> report list \<Rightarrow> daily_stat" where
  "addStat s rs =
     \<lparr>runs = runs s + int (length rs),
      passed = passed s + sum_list (map (\<lambda>r. parseIntOr0 (rpassed r)) rs),
      failed = failed s + sum_list (map (\<lambda>r. parseIntOr0 (rfailed r)) rs)\<rparr>"

definition bumpBy :: "(report \<Rightarrow> string) \<Rightarrow> daily_stat obj \<Rightarrow> report \<Rightarrow> daily_stat obj" where
  "bumpBy tag ob r = bumpTag ob (tag r) (parseIntOr0 (rpassed r)) (parseIntOr0 (rfailed r))"

definition mergedMap :: "day_entry list \<Rightarrow> report list \<Rightarrow> day_entry obj" where
  "mergedMap old manifest = mergeNew (indexByDate old) (aggregate manifest)"

definition sumOver :: "daily_stat obj \<Rightarrow> daily_stat" where
  "sumOver ob =
     \<lparr>runs = sum_list (map (\<lambda>kv. runs (snd kv)) ob),
      passed = sum_list (map (\<lambda>kv. passed (snd kv)) ob),
      failed = sum_list (map (\<lambda>kv. failed (snd kv)) ob)\<rparr>"

text \<open>
  \<open>foldStat\<close> is what the loop makes of a counter, one \<open>bumpStat\<close> per record;
  \<open>sumStat\<close> is the count and the two sums of the specification. They agree on
  \<open>safeRecords\<close>: at most \<open>maxSafe\<close> records, whose parsed \<open>passed\<close> values, and
  whose parsed \<open>failed\<close> values, add up in absolute value to at most \<open>maxSafe\<close>.
\<close>

definition foldStat :: "daily_stat \<Rightarrow> report list \<Rightarrow> daily_stat" where
  "foldStat s rs =
     foldl (\<lambda>s r. bumpStat s (parseIntOr0 (rpassed r)) (parseIntOr0 (rfailed r))) s rs"

definition safeRecords :: "report list \<Rightarrow> bool" where
  "safeRecords rs \<longleftrightarrow>
     int (length rs) \<le> maxSafe \<and>
     sum_list (map (\<lambda>r. \<bar>parseIntOr0 (rpassed r)\<bar>) rs) \<le> maxSafe \<and>
     sum_list (map (\<lambda>r. \<bar>parseIntOr0 (rfailed r)\<bar>) rs) \<le> maxSafe"





section \<open>Concrete inputs\<close>

text \<open>The scenario of the specification, and a stored history of two days.\<close>

definition scenario :: "report list" where
  "scenario =
     [\<lparr>timestamp = Some ''2026-02-18_100000'', environment = Some ''staging'',
       job = Some ''android-smoke'', rpassed = JStr ''10'', rfailed = JStr ''2''\<rparr>,
      \<lparr>timestamp = Some ''2026-02-18_110000'', environment = Some ''sandbox'',
       job = Some ''ios-e2e'', rpassed = JStr ''5'', rfailed = JStr ''0''\<rparr>]"

definition oldDay :: "string \<Rightarrow> int \<Rightarrow> day_entry" where
  "oldDay d n =
     \<lparr>date = d, totals = \<lparr>runs = n, passed = n, failed = 0\<rparr>,
      platforms = [(''other'', \<lparr>runs = n, passed = n, failed = 0\<rparr>)],
      environments = [(''local'', \<lparr>runs = n, passed = n, failed = 0\<rparr>)]\<rparr>"

definition stored :: history where
  "stored = \<lparr>lastUpdated = Some ''2026-02-17T08:00:00.000Z'',
             entries = [oldDay ''2026-02-18'' 7, oldDay ''2026-02-01'' 3]\<rparr>"

definition constructorManifest :: "report list" where
  "constructorManifest =
     [\<lparr>timestamp = Some ''2026-02-18_100000'', environment = Some ''constructor'',
       job = Some ''android-smoke'', rpassed = JNum 10, rfailed = JNum 2\<rparr>]"






section \<open>Lemmas\<close>

subsection \<open>Strings\<close>

lemma startsWith_iff: "startsWith s n \<longleftrightarrow> (\<exists>b. s = n @ b)"
  by (induction s n rule: startsWith.induct) auto

lemma includesStr_iff: "includesStr s n \<longleftrightarrow> (\<exists>a b. s = a @ n @ b)"
proof (induction s)
  case Nil
  then show ?case by auto
next
  case (Cons c cs)
  show ?case
  proof
    assume "includesStr (c # cs) n"
    then consider "startsWith (c # cs) n" | "includesStr cs n" by auto
    then show "\<exists>a b. c # cs = a @ n @ b"
    proof cases
      case 1
      then obtain b where "c # cs = n @ b" by (auto simp: startsWith_iff)
      then have "c # cs = [] @ n @ b" by simp
      then show ?thesis by blast
    next
      case 2
      then obtain a b where "cs = a @ n @ b" using Cons.IH by blast
      then have "c # cs = (c # a) @ n @ b" by simp
      then show ?thesis by blast
    qed
  next
    assume "\<exists>a b. c # cs = a @ n @ b"
    then obtain a b where ab: "c # cs = a @ n @ b" by blast
    show "includesStr (c # cs) n"
    proof (cases a)
      case Nil
      with ab have "startsWith (c # cs) n" by (auto simp: startsWith_iff)
      then show ?thesis by simp
    next
      case (Cons x a')
      with ab have "cs = a' @ n @ b" by simp
      then have "includesStr cs n" using Cons.IH by blast
      then show ?thesis by simp
    qed
  qed
qed

subsection \<open>Plain objects read out along their sorted keys\<close>

lemma map_of_assign:
  "map_of (assign m k v) = (if k = ''__proto__'' then map_of m else (map_of m)(k \<mapsto> v))"
  by (simp add: assign_def AList.update_conv')

lemma distinct_assign: "distinct (keys m) \<Longrightarrow> distinct (keys (assign m k v))"
  by (simp add: assign_def keys_def AList.distinct_update)

lemma set_keys_dom: "set (keys m) = dom (map_of m)"
  by (simp add: keys_def dom_map_of_conv_image_fst)

lemma sort_keys_cong:
  assumes "distinct (keys a)" "distinct (keys b)" "map_of a = map_of b"
  shows "sort (keys a) = sort (keys b)"
proof -
  have "set (keys a) = set (keys b)" using assms(3) by (simp add: set_keys_dom)
  then show ?thesis using assms(1,2)
    by (intro sorted_distinct_set_unique) simp_all
qed

lemma sortedValues_cong:
  assumes "distinct (keys a)" "distinct (keys b)" "map_of a = map_of b"
  shows "sortedValues a = sortedValues b"
  using sort_keys_cong[OF assms] assms(3) by (simp add: sortedValues_def)

lemma map_filter_all_Some:
  "\<forall>k\<in>set ks. f k \<noteq> None \<Longrightarrow> List.map_filter f ks = map (\<lambda>k. the (f k)) ks"
  by (induction ks) (auto simp: List.map_filter_simps)

lemma sortedValues_map:
  "sortedValues m = map (\<lambda>k. the (map_of m k)) (sort (keys m))"
  unfolding sortedValues_def
  by (rule map_filter_all_Some) (auto simp: set_keys_dom)

lemma dates_sortedValues: "good m \<Longrightarrow> map date (sortedValues m) = sort (keys m)"
proof -
  assume g: "good m"
  have "map (date \<circ> (\<lambda>k. the (map_of m k))) (sort (keys m)) = sort (keys m)"
  proof (rule map_idI)
    fix k assume "k \<in> set (sort (keys m))"
    then obtain e where "map_of m k = Some e" by (auto simp: set_keys_dom)
    then show "(date \<circ> (\<lambda>k. the (map_of m k))) k = k" using g by (simp add: good_def)
  qed
  then show ?thesis by (simp add: sortedValues_map)
qed

lemma set_sortedValues: "set (sortedValues m) = ran (map_of m)"
  unfolding sortedValues_map
  by (auto simp: set_keys_dom ran_def image_iff) force

lemma sortedValues_lookup:
  "good m \<Longrightarrow> x \<in> set (sortedValues m) \<longleftrightarrow> map_of m (date x) = Some x"
  unfolding set_sortedValues good_def ran_def by auto

subsection \<open>The stored entries by date, and the merge\<close>

text \<open>
  In a \<open>good\<close> object every entry sits under its own date.
\<close>

lemma good_assign: "good m \<Longrightarrow> date e = k \<Longrightarrow> good (assign m k e)"
  by (auto simp: good_def distinct_assign map_of_assign split: if_splits)

lemma good_Nil: "good []"
  by (simp add: good_def keys_def)

lemma good_foldl_index:
  "good m \<Longrightarrow> good (foldl (\<lambda>m e. assign m (date e) e) m es)"
  by (induction es arbitrary: m) (auto simp: good_assign)

lemma good_indexByDate: "good (indexByDate es)"
  by (simp add: indexByDate_def good_foldl_index good_Nil)

lemma foldl_index_Some:
  "map_of (foldl (\<lambda>m e. assign m (date e) e) m es) k = Some x \<Longrightarrow>
     map_of m k = Some x \<or> (x \<in> set es \<and> date x = k)"
proof (induction es arbitrary: m)
  case Nil
  then show ?case by simp
next
  case (Cons e es)
  from Cons.IH[OF Cons.prems[simplified]]
  show ?case by (auto simp: map_of_assign split: if_splits)
qed

lemma foldl_index_dom:
  "dom (map_of (foldl (\<lambda>m e. assign m (date e) e) m es)) =
     dom (map_of m) \<union> (date ` set es - {''__proto__''})"
  by (induction es arbitrary: m) (auto simp: map_of_assign split: if_splits)

lemma indexByDate_Some:
  "map_of (indexByDate es) k = Some x \<Longrightarrow> x \<in> set es \<and> date x = k"
  using foldl_index_Some[of "[]" es k x] by (simp add: indexByDate_def)

lemma indexByDate_dom: "dom (map_of (indexByDate es)) = date ` set es - {''__proto__''}"
  by (simp add: indexByDate_def foldl_index_dom)

lemma indexByDate_unique:
  assumes "x \<in> set es" "date x \<noteq> ''__proto__''" "\<forall>y\<in>set es. date y = date x \<longrightarrow> y = x"
  shows "map_of (indexByDate es) (date x) = Some x"
proof -
  have "date x \<in> dom (map_of (indexByDate es))" using assms(1,2) by (simp add: indexByDate_dom)
  then obtain y where y: "map_of (indexByDate es) (date x) = Some y" by blast
  from indexByDate_Some[OF y] assms(3) have "y = x" by blast
  with y show ?thesis by simp
qed

lemma mergeNew_foldl:
  "map_of (foldl (\<lambda>m d. case map_of b d of None \<Rightarrow> m | Some e \<Rightarrow> assign m d e) a ks) k =
     (if k \<in> set ks \<and> k \<noteq> ''__proto__'' \<and> map_of b k \<noteq> None then map_of b k else map_of a k)"
  by (induction ks arbitrary: a) (auto simp: map_of_assign split: option.splits)

lemma map_of_mergeNew:
  "map_of (mergeNew a b) k =
     (if k \<noteq> ''__proto__'' \<and> map_of b k \<noteq> None then map_of b k else map_of a k)"
  unfolding mergeNew_def mergeNew_foldl by (auto simp: set_keys_dom)

lemma distinct_mergeNew_foldl:
  "distinct (keys a) \<Longrightarrow>
   distinct (keys (foldl (\<lambda>m d. case map_of b d of None \<Rightarrow> m | Some e \<Rightarrow> assign m d e) a ks))"
  by (induction ks arbitrary: a) (auto simp: distinct_assign split: option.splits)

lemma good_mergeNew: "good a \<Longrightarrow> good b \<Longrightarrow> good (mergeNew a b)"
proof -
  assume a: "good a" and b: "good b"
  have "distinct (keys (mergeNew a b))"
    using a by (simp add: good_def mergeNew_def distinct_mergeNew_foldl)
  moreover have "date e = k" if "map_of (mergeNew a b) k = Some e" for k e
    using that a b by (auto simp: good_def map_of_mergeNew split: if_splits)
  ultimately show ?thesis by (simp add: good_def)
qed

subsection \<open>One pass over the manifest\<close>

text \<open>
  What the pass leaves under a date depends on the records of that date only, and is
  the fold of \<open>stepDay\<close> over them, from a fresh entry.
\<close>

lemma addReport_None: "extractDate (timestamp r) = None \<Longrightarrow> addReport m r = m"
  by (simp add: addReport_def)

lemma addReport_Some:
  "extractDate (timestamp r) = Some d \<Longrightarrow> addReport m r = AList.update d (stepDay (dayOr m d) r) m"
  by (simp add: addReport_def stepDay_def dayOr_def Let_def)

lemma date_stepDay: "date (stepDay day r) = date day"
  by (simp add: stepDay_def)

lemma date_foldl_stepDay: "date (foldl stepDay day rs) = date day"
  by (induction rs arbitrary: day) (simp_all add: date_stepDay)

lemma date_freshDay: "date (freshDay d) = d"
  by (simp add: freshDay_def)

lemma extractDate_isDate: "extractDate ts = Some d \<Longrightarrow> isDate d"
  by (auto simp: extractDate_def split: option.splits if_splits)

lemma isDate_length: "isDate d \<Longrightarrow> length d = 10"
  by (auto simp: isDate_def dest: list_all2_lengthD)

lemma isDate_not_proto: "isDate d \<Longrightarrow> d \<noteq> ''__proto__''"
  by (auto dest: isDate_length)

lemma isDate_not_inherited: "isDate d \<Longrightarrow> d \<notin> set objectPrototype"
  by (auto simp: objectPrototype_def dest: isDate_length)

lemma map_of_addReport:
  "map_of (addReport m r) k =
     (if extractDate (timestamp r) = Some k then Some (stepDay (dayOr m k) r) else map_of m k)"
  by (cases "extractDate (timestamp r)") (auto simp: addReport_None addReport_Some AList.update_conv')

lemma keys_addReport:
  "set (keys (addReport m r)) =
     (case extractDate (timestamp r) of None \<Rightarrow> set (keys m) | Some d \<Rightarrow> insert d (set (keys m)))"
  by (cases "extractDate (timestamp r)")
     (auto simp: addReport_None addReport_Some keys_def AList.dom_update)

lemma distinct_addReport: "distinct (keys m) \<Longrightarrow> distinct (keys (addReport m r))"
  by (cases "extractDate (timestamp r)")
     (auto simp: addReport_None addReport_Some keys_def AList.distinct_update)

lemma dayOr_date: "good m \<Longrightarrow> date (dayOr m d) = d"
  by (auto simp: dayOr_def good_def freshDay_def split: option.splits)

lemma good_addReport: "good m \<Longrightarrow> good (addReport m r)"
proof -
  assume g: "good m"
  have "distinct (keys (addReport m r))" using g by (simp add: good_def distinct_addReport)
  moreover have "date e = k" if "map_of (addReport m r) k = Some e" for k e
    using that g dayOr_date[OF g, of k]
    by (auto simp: map_of_addReport date_stepDay good_def split: if_splits)
  ultimately show ?thesis by (simp add: good_def)
qed

lemma good_foldl_addReport: "good m \<Longrightarrow> good (foldl addReport m rs)"
  by (induction rs arbitrary: m) (simp_all add: good_addReport)

lemma good_aggregate: "good (aggregate rs)"
  by (simp add: aggregate_def good_foldl_addReport good_Nil)

lemma keys_foldl_addReport:
  "set (keys (foldl addReport m rs)) =
     set (keys m) \<union> {d. \<exists>r\<in>set rs. extractDate (timestamp r) = Some d}"
  by (induction rs arbitrary: m) (auto simp: keys_addReport split: option.splits)

lemma keys_aggregate:
  "set (keys (aggregate rs)) = {d. \<exists>r\<in>set rs. extractDate (timestamp r) = Some d}"
  unfolding aggregate_def keys_foldl_addReport by (simp add: keys_def)

lemma aggregate_keys_isDate: "k \<in> set (keys (aggregate rs)) \<Longrightarrow> isDate k"
  by (auto simp: keys_aggregate extractDate_isDate)

lemma aggregate_Some_isDate: "map_of (aggregate rs) k = Some e \<Longrightarrow> isDate k"
  using aggregate_keys_isDate[of k rs] by (auto simp: set_keys_dom)

lemma foldl_addReport_project:
  "map_of a d = map_of b d \<Longrightarrow>
   map_of (foldl addReport a rs) d = map_of (foldl addReport b (recordsOf rs d)) d"
proof (induction rs arbitrary: a b)
  case Nil
  then show ?case by (simp add: recordsOf_def)
next
  case (Cons r rs)
  show ?case
  proof (cases "extractDate (timestamp r) = Some d")
    case True
    have "map_of (addReport a r) d = map_of (addReport b r) d"
      using Cons.prems True by (simp add: map_of_addReport dayOr_def)
    from Cons.IH[OF this] True show ?thesis by (simp add: recordsOf_def)
  next
    case False
    have "map_of (addReport a r) d = map_of b d"
      using Cons.prems False by (simp add: map_of_addReport)
    from Cons.IH[OF this] False show ?thesis by (simp add: recordsOf_def)
  qed
qed

lemma aggregate_project: "map_of (aggregate rs) d = map_of (aggregate (recordsOf rs d)) d"
  unfolding aggregate_def by (rule foldl_addReport_project) simp

lemma foldl_addReport_single:
  "\<forall>r\<in>set rs. extractDate (timestamp r) = Some d \<Longrightarrow>
   foldl addReport [(d, e)] rs = [(d, foldl stepDay e rs)]"
  by (induction rs arbitrary: e) (simp_all add: addReport_Some dayOr_def)

lemma aggregate_single:
  assumes "\<forall>r\<in>set rs. extractDate (timestamp r) = Some d" "rs \<noteq> []"
  shows "aggregate rs = [(d, foldl stepDay (freshDay d) rs)]"
proof -
  obtain r rs' where rs: "rs = r # rs'" using assms(2) by (cases rs) auto
  have "addReport [] r = [(d, stepDay (freshDay d) r)]"
    using assms(1) rs by (simp add: addReport_Some dayOr_def)
  then show ?thesis
    using foldl_addReport_single[of rs' d "stepDay (freshDay d) r"] assms(1) rs
    by (simp add: aggregate_def)
qed

lemma aggregate_recordsOf:
  "recordsOf rs d \<noteq> [] \<Longrightarrow>
   aggregate (recordsOf rs d) = [(d, foldl stepDay (freshDay d) (recordsOf rs d))]"
  by (rule aggregate_single) (auto simp: recordsOf_def)

lemma map_of_aggregate:
  "map_of (aggregate rs) d =
     (if recordsOf rs d = [] then None else Some (foldl stepDay (freshDay d) (recordsOf rs d)))"
proof (cases "recordsOf rs d = []")
  case True
  then have "d \<notin> set (keys (aggregate rs))"
    by (auto simp: keys_aggregate recordsOf_def filter_empty_conv)
  then show ?thesis using True by (auto simp: set_keys_dom)
next
  case False
  then show ?thesis using aggregate_project[of rs d] by (simp add: aggregate_recordsOf)
qed

subsection \<open>The merged object and the written history\<close>

lemma good_mergedMap: "good (mergedMap old manifest)"
  by (simp add: mergedMap_def good_mergeNew good_indexByDate good_aggregate)

lemma map_of_mergedMap:
  "map_of (mergedMap old manifest) k =
     (if recordsOf manifest k = [] then map_of (indexByDate old) k
      else Some (foldl stepDay (freshDay k) (recordsOf manifest k)))"
proof (cases "recordsOf manifest k = []")
  case True
  then show ?thesis by (simp add: mergedMap_def map_of_mergeNew map_of_aggregate)
next
  case False
  then obtain e where "map_of (aggregate manifest) k = Some e" by (simp add: map_of_aggregate)
  then have "k \<noteq> ''__proto__''" by (auto dest: aggregate_Some_isDate isDate_not_proto)
  then show ?thesis using False by (simp add: mergedMap_def map_of_mergeNew map_of_aggregate)
qed

lemma mergedEntries_eq: "mergedEntries old manifest = sortedValues (mergedMap old manifest)"
  by (simp add: mergedEntries_def mergedMap_def)

lemma in_mergedEntries:
  "x \<in> set (mergedEntries old manifest) \<longleftrightarrow> map_of (mergedMap old manifest) (date x) = Some x"
  by (simp add: mergedEntries_eq sortedValues_lookup good_mergedMap)

lemma dates_mergedEntries:
  "map date (mergedEntries old manifest) = sort (keys (mergedMap old manifest))"
  by (simp add: mergedEntries_eq dates_sortedValues good_mergedMap)

lemma main_Manifest:
  "main now (Manifest manifest) sf =
     Inr \<lparr>written = \<lparr>lastUpdated = Some now,
                     entries = mergedEntries (entries (fst (loadHistory sf))) manifest\<rparr>,
          out = [ReadEntries (length manifest)] @ snd (loadHistory sf)
                @ [Updated (length (mergedEntries (entries (fst (loadHistory sf))) manifest))]
                @ spanLine ManifestRange (sort (keys (aggregate manifest)))
                @ spanLine HistorySpan
                    (map date (mergedEntries (entries (fst (loadHistory sf))) manifest))\<rparr>"
  by (simp add: main_def Let_def split: prod.splits)

lemma written_main:
  "main now (Manifest manifest) sf = Inr res \<Longrightarrow>
     written res = \<lparr>lastUpdated = Some now,
                    entries = mergedEntries (entries (fst (loadHistory sf))) manifest\<rparr>"
  by (auto simp: main_Manifest)

lemma recordsOf_empty_iff:
  "recordsOf manifest d = [] \<longleftrightarrow> (\<forall>r\<in>set manifest. extractDate (timestamp r) \<noteq> Some d)"
  by (auto simp: recordsOf_def filter_empty_conv)

subsection \<open>A run on its own output\<close>

lemma extractDate_not_proto: "extractDate ts \<noteq> Some ''__proto__''"
proof
  assume "extractDate ts = Some ''__proto__''"
  then have "isDate ''__proto__''" by (rule extractDate_isDate)
  then have "length ''__proto__'' = 10" by (rule isDate_length)
  then show False by simp
qed

lemma indexByDate_no_proto: "map_of (indexByDate old) ''__proto__'' = None"
proof -
  have "''__proto__'' \<notin> dom (map_of (indexByDate old))"
    unfolding indexByDate_dom by simp
  then show ?thesis by (simp only: domIff not_not)
qed

lemma mergedMap_no_proto: "map_of (mergedMap old manifest) ''__proto__'' = None"
proof -
  have "recordsOf manifest ''__proto__'' = []"
    unfolding recordsOf_empty_iff using extractDate_not_proto by simp
  then show ?thesis by (simp only: map_of_mergedMap indexByDate_no_proto if_True simp_thms)
qed

lemma reindex_mergedEntries:
  "map_of (indexByDate (mergedEntries old manifest)) k = map_of (mergedMap old manifest) k"
proof (cases "map_of (mergedMap old manifest) k")
  case None
  show ?thesis
  proof (cases "map_of (indexByDate (mergedEntries old manifest)) k")
    case (Some y)
    from indexByDate_Some[OF this] have "map_of (mergedMap old manifest) k = Some y"
      by (auto simp: in_mergedEntries)
    with None show ?thesis by simp
  qed (simp add: None)
next
  case (Some x)
  have dx: "date x = k" using Some good_mergedMap[of old manifest] by (simp add: good_def)
  have kp: "date x \<noteq> ''__proto__''" using Some mergedMap_no_proto[of old manifest] dx by auto
  have mem: "x \<in> set (mergedEntries old manifest)" using Some dx by (simp add: in_mergedEntries)
  have uniq: "\<forall>y\<in>set (mergedEntries old manifest). date y = date x \<longrightarrow> y = x"
    using Some dx by (auto simp: in_mergedEntries)
  have "map_of (indexByDate (mergedEntries old manifest)) (date x) = Some x"
    using mem kp uniq by (rule indexByDate_unique)
  then show ?thesis using Some dx by simp
qed

lemma mergedEntries_idem:
  "mergedEntries (mergedEntries old manifest) manifest = mergedEntries old manifest"
proof -
  have "map_of (mergedMap (mergedEntries old manifest) manifest) k = map_of (mergedMap old manifest) k"
    for k
    by (simp add: map_of_mergedMap reindex_mergedEntries)
  then have "map_of (mergedMap (mergedEntries old manifest) manifest) = map_of (mergedMap old manifest)"
    by (rule ext)
  moreover have "distinct (keys (mergedMap (mergedEntries old manifest) manifest))"
    using good_mergedMap by (simp add: good_def)
  moreover have "distinct (keys (mergedMap old manifest))"
    using good_mergedMap by (simp add: good_def)
  ultimately have "sortedValues (mergedMap (mergedEntries old manifest) manifest) =
      sortedValues (mergedMap old manifest)"
    by (intro sortedValues_cong)
  then show ?thesis by (simp only: mergedEntries_eq)
qed

subsection \<open>The classifiers on the examples of the specification\<close>

lemma includesStr_contains: "includesStr s n = contains s n"
  by (simp add: includesStr_iff contains_def)

lemma classification_examples:
  "detectPlatform (Some ''android-smoke-01'') = ''android''"
  "detectPlatform (Some ''ios-regression'') = ''ios''"
  "detectPlatform (Some ''browser-desktop-ci'') = ''browser''"
  "detectPlatform (Some ''unit-tests'') = ''other''"
  "normalizeEnv (Some ''Staging-EU'') = ''staging''"
  "normalizeEnv (Some '''') = ''unknown''"
  by code_simp+

subsection \<open>Records that differ in what the pass does not read\<close>



lemma roundAbs_small: "n \<le> 9007199254740992 \<Longrightarrow> roundAbs n = n"
  by (simp add: roundAbs_def)

lemma toDouble_safe: "\<bar>n\<bar> \<le> maxSafe \<Longrightarrow> toDouble n = n"
  by (simp add: toDouble_def roundAbs_small maxSafe_def)





subsection \<open>Strings without a digit\<close>







subsection \<open>Counts and sums, in total and per tag\<close>

lemma addStat_empty: "addStat emptyStat rs = sumStat rs"
  by (simp add: addStat_def sumStat_def emptyStat_def)

lemma foldStat_Nil: "foldStat s [] = s"
  by (simp add: foldStat_def)

lemma foldStat_Cons:
  "foldStat s (r # rs) = foldStat (bumpStat s (parseIntOr0 (rpassed r)) (parseIntOr0 (rfailed r))) rs"
  by (simp add: foldStat_def)

lemma jsAdd_safe: "\<bar>a + b\<bar> \<le> maxSafe \<Longrightarrow> jsAdd a b = a + b"
  by (simp add: jsAdd_def toDouble_safe)

lemma sum_abs_nonneg: "0 \<le> sum_list (map (\<lambda>r. \<bar>g r :: int\<bar>) rs)"
  by (induction rs) auto

lemma foldStat_exact:
  "\<bar>runs s\<bar> + int (length rs) \<le> maxSafe \<Longrightarrow>
   \<bar>passed s\<bar> + sum_list (map (\<lambda>r. \<bar>parseIntOr0 (rpassed r)\<bar>) rs) \<le> maxSafe \<Longrightarrow>
   \<bar>failed s\<bar> + sum_list (map (\<lambda>r. \<bar>parseIntOr0 (rfailed r)\<bar>) rs) \<le> maxSafe \<Longrightarrow>
   foldStat s rs = addStat s rs"
proof (induction rs arbitrary: s)
  case Nil
  then show ?case by (simp add: foldStat_Nil addStat_def)
next
  case (Cons r rs)
  let ?p = "parseIntOr0 (rpassed r)" and ?f = "parseIntOr0 (rfailed r)"
  let ?P = "sum_list (map (\<lambda>r. \<bar>parseIntOr0 (rpassed r)\<bar>) rs)"
  let ?F = "sum_list (map (\<lambda>r. \<bar>parseIntOr0 (rfailed r)\<bar>) rs)"
  have P0: "0 \<le> ?P" and F0: "0 \<le> ?F" by (rule sum_abs_nonneg)+
  have r: "\<bar>runs s + 1\<bar> \<le> maxSafe" using Cons.prems(1) by simp
  have p: "\<bar>passed s + ?p\<bar> \<le> maxSafe" using Cons.prems(2) P0 by simp
  have f: "\<bar>failed s + ?f\<bar> \<le> maxSafe" using Cons.prems(3) F0 by simp
  have b: "bumpStat s ?p ?f = \<lparr>runs = runs s + 1, passed = passed s + ?p, failed = failed s + ?f\<rparr>"
    by (simp only: bumpStat_def jsAdd_safe[OF r] jsAdd_safe[OF p] jsAdd_safe[OF f])
  have "foldStat (bumpStat s ?p ?f) rs = addStat (bumpStat s ?p ?f) rs"
  proof (rule Cons.IH)
    show "\<bar>runs (bumpStat s ?p ?f)\<bar> + int (length rs) \<le> maxSafe"
      using Cons.prems(1) unfolding b by simp
    show "\<bar>passed (bumpStat s ?p ?f)\<bar> + ?P \<le> maxSafe"
      using Cons.prems(2) unfolding b by simp
    show "\<bar>failed (bumpStat s ?p ?f)\<bar> + ?F \<le> maxSafe"
      using Cons.prems(3) unfolding b by simp
  qed
  then show ?case unfolding foldStat_Cons b by (simp add: addStat_def)
qed

lemma foldStat_sumStat: "safeRecords rs \<Longrightarrow> foldStat emptyStat rs = sumStat rs"
proof -
  assume "safeRecords rs"
  then have "foldStat emptyStat rs = addStat emptyStat rs"
    by (intro foldStat_exact) (simp_all add: safeRecords_def emptyStat_def)
  then show ?thesis by (simp add: addStat_empty)
qed

lemma sum_abs_filter:
  "sum_list (map (\<lambda>r. \<bar>g r :: int\<bar>) (filter Q rs)) \<le> sum_list (map (\<lambda>r. \<bar>g r\<bar>) rs)"
  by (induction rs) auto

lemma safeRecords_filter: "safeRecords rs \<Longrightarrow> safeRecords (filter Q rs)"
proof -
  assume s: "safeRecords rs"
  have "int (length (filter Q rs)) \<le> int (length rs)" by simp
  moreover note sum_abs_filter[of "\<lambda>r. parseIntOr0 (rpassed r)" Q rs]
    sum_abs_filter[of "\<lambda>r. parseIntOr0 (rfailed r)" Q rs]
  ultimately show ?thesis using s unfolding safeRecords_def by linarith
qed

lemma map_of_bumpTag:
  "map_of (bumpTag ob k p f) t =
     (if t = k then
        (case map_of ob k of
           Some s \<Rightarrow> Some (bumpStat s p f)
         | None \<Rightarrow> if k \<in> set objectPrototype then None else Some (bumpStat emptyStat p f))
      else map_of ob t)"
proof (cases "map_of ob k")
  case None
  then show ?thesis
    by (auto simp: bumpTag_def map_of_assign objectPrototype_def)
next
  case (Some s)
  then show ?thesis by (simp add: bumpTag_def AList.update_conv')
qed

lemma map_of_foldl_bumpBy:
  "map_of (foldl (bumpBy tag) ob rs) t =
     (case map_of ob t of
        Some s \<Rightarrow> Some (foldStat s (filter (\<lambda>r. tag r = t) rs))
      | None \<Rightarrow>
          if t \<in> set objectPrototype \<or> filter (\<lambda>r. tag r = t) rs = [] then None
          else Some (foldStat emptyStat (filter (\<lambda>r. tag r = t) rs)))"
proof (induction rs arbitrary: ob)
  case Nil
  then show ?case by (simp add: foldStat_Nil split: option.splits)
next
  case (Cons r rs)
  have step: "map_of (bumpBy tag ob r) t =
      (if t = tag r then
         (case map_of ob t of
            Some s \<Rightarrow> Some (bumpStat s (parseIntOr0 (rpassed r)) (parseIntOr0 (rfailed r)))
          | None \<Rightarrow> if t \<in> set objectPrototype then None
              else Some (bumpStat emptyStat (parseIntOr0 (rpassed r)) (parseIntOr0 (rfailed r))))
       else map_of ob t)"
    by (cases "map_of ob (tag r)") (auto simp: bumpBy_def map_of_bumpTag)
  have "map_of (foldl (bumpBy tag) ob (r # rs)) t = map_of (foldl (bumpBy tag) (bumpBy tag ob r) rs) t"
    by simp
  also have "\<dots> =
     (case map_of (bumpBy tag ob r) t of
        Some s \<Rightarrow> Some (foldStat s (filter (\<lambda>r. tag r = t) rs))
      | None \<Rightarrow>
          if t \<in> set objectPrototype \<or> filter (\<lambda>r. tag r = t) rs = [] then None
          else Some (foldStat emptyStat (filter (\<lambda>r. tag r = t) rs)))"
    by (rule Cons.IH)
  also have "\<dots> =
     (case map_of ob t of
        Some s \<Rightarrow> Some (foldStat s (filter (\<lambda>r. tag r = t) (r # rs)))
      | None \<Rightarrow>
          if t \<in> set objectPrototype \<or> filter (\<lambda>r. tag r = t) (r # rs) = [] then None
          else Some (foldStat emptyStat (filter (\<lambda>r. tag r = t) (r # rs))))"
    unfolding step by (cases "map_of ob t") (auto simp: foldStat_Cons)
  finally show ?case .
qed

lemma totals_foldl_stepDay: "totals (foldl stepDay day rs) = foldStat (totals day) rs"
  by (induction rs arbitrary: day) (simp_all add: foldStat_Nil foldStat_Cons stepDay_def)

lemma platforms_foldl_stepDay:
  "platforms (foldl stepDay day rs) = foldl (bumpBy (\<lambda>r. detectPlatform (job r))) (platforms day) rs"
  by (induction rs arbitrary: day) (simp_all add: stepDay_def bumpBy_def)

lemma environments_foldl_stepDay:
  "environments (foldl stepDay day rs) =
     foldl (bumpBy (\<lambda>r. normalizeEnv (environment r))) (environments day) rs"
  by (induction rs arbitrary: day) (simp_all add: stepDay_def bumpBy_def)

lemma fresh_totals: "totals (foldl stepDay (freshDay d) rs) = foldStat emptyStat rs"
  by (simp add: totals_foldl_stepDay freshDay_def)

lemma detectPlatform_cases:
  "detectPlatform jb \<in> {''android'', ''ios'', ''browser'', ''other''}"
  by (simp add: detectPlatform_def Let_def)

lemma detectPlatform_own: "detectPlatform jb \<notin> set objectPrototype"
proof -
  have "set objectPrototype \<inter> {''android'', ''ios'', ''browser'', ''other''} = {}"
    by (simp add: objectPrototype_def)
  then show ?thesis using detectPlatform_cases[of jb] by blast
qed

lemma fresh_platforms:
  "map_of (platforms (foldl stepDay (freshDay d) rs)) t =
     (if filter (\<lambda>r. detectPlatform (job r) = t) rs = [] then None
      else Some (foldStat emptyStat (filter (\<lambda>r. detectPlatform (job r) = t) rs)))"
proof (cases "filter (\<lambda>r. detectPlatform (job r) = t) rs = []")
  case True
  then show ?thesis by (simp add: platforms_foldl_stepDay map_of_foldl_bumpBy freshDay_def)
next
  case False
  then obtain r where "r \<in> set (filter (\<lambda>r. detectPlatform (job r) = t) rs)"
    by (cases "filter (\<lambda>r. detectPlatform (job r) = t) rs") auto
  then have "detectPlatform (job r) = t" by simp
  then have "t \<notin> set objectPrototype" using detectPlatform_own by blast
  then show ?thesis using False
    by (simp add: platforms_foldl_stepDay map_of_foldl_bumpBy freshDay_def)
qed

lemma fresh_environments:
  "map_of (environments (foldl stepDay (freshDay d) rs)) t =
     (if t \<in> set objectPrototype \<or> filter (\<lambda>r. normalizeEnv (environment r) = t) rs = [] then None
      else Some (foldStat emptyStat (filter (\<lambda>r. normalizeEnv (environment r) = t) rs)))"
  by (simp add: environments_foldl_stepDay map_of_foldl_bumpBy freshDay_def)

subsection \<open>The breakdowns against the totals\<close>

text \<open>
  On safe records the figures of the platforms add up to the totals; those of the
  environments do when, besides, no record of the day has a tag that
  \<open>Object.prototype\<close> provides.
\<close>

lemma sum_list_indicator:
  "distinct ks \<Longrightarrow>
   sum_list (map (\<lambda>k. if a = k then (c::int) else 0) ks) = (if a \<in> set ks then c else 0)"
  by (induction ks) auto

lemma partition_sum:
  assumes "distinct ks" and "\<forall>r\<in>set rs. tag r \<in> set ks"
  shows "sum_list (map (\<lambda>k. sum_list (map g (filter (\<lambda>r. tag r = k) rs))) ks) =
         (sum_list (map g rs) :: int)"
  using assms(2)
proof (induction rs)
  case Nil
  then show ?case by simp
next
  case (Cons r rs)
  have "sum_list (map (\<lambda>k. sum_list (map g (filter (\<lambda>r. tag r = k) (r # rs)))) ks) =
        sum_list (map (\<lambda>k. (if tag r = k then g r else 0) +
                       sum_list (map g (filter (\<lambda>r. tag r = k) rs))) ks)"
    by (intro arg_cong[where f = sum_list] map_cong) auto
  also have "\<dots> = sum_list (map (\<lambda>k. if tag r = k then g r else 0) ks) +
        sum_list (map (\<lambda>k. sum_list (map g (filter (\<lambda>r. tag r = k) rs))) ks)"
    by (simp add: sum_list_addf)
  also have "\<dots> = g r + sum_list (map g rs)"
    using Cons assms(1) by (simp add: sum_list_indicator)
  finally show ?case by simp
qed

lemma distinct_bumpTag: "distinct (map fst ob) \<Longrightarrow> distinct (map fst (bumpTag ob k p f))"
  by (auto simp: bumpTag_def assign_def AList.distinct_update split: option.splits)

lemma distinct_foldl_bumpBy:
  "distinct (map fst ob) \<Longrightarrow> distinct (map fst (foldl (bumpBy tag) ob rs))"
  by (induction rs arbitrary: ob) (simp_all add: bumpBy_def distinct_bumpTag)

lemma sumOver_tags:
  assumes d: "distinct (map fst ob)"
    and v: "\<forall>k s. map_of ob k = Some s \<longrightarrow> s = sumStat (filter (\<lambda>r. tag r = k) rs)"
    and k: "\<forall>r\<in>set rs. map_of ob (tag r) \<noteq> None"
  shows "sumOver ob = sumStat rs"
proof -
  have el: "snd kv = sumStat (filter (\<lambda>r. tag r = fst kv) rs)" if "kv \<in> set ob" for kv
  proof -
    from that have "(fst kv, snd kv) \<in> set ob" by simp
    with d have "map_of ob (fst kv) = Some (snd kv)" by (simp only: map_of_eq_Some_iff)
    with v show ?thesis by blast
  qed
  have ks: "\<forall>r\<in>set rs. tag r \<in> set (map fst ob)"
    using k by (auto simp: map_of_eq_None_iff)
  have 1: "sum_list (map (\<lambda>kv. runs (snd kv)) ob) =
        sum_list (map (\<lambda>k. sum_list (map (\<lambda>r. 1) (filter (\<lambda>r. tag r = k) rs))) (map fst ob))"
    unfolding map_map comp_def
    by (intro arg_cong[where f = sum_list] map_cong refl) (simp add: el sumStat_def sum_list_triv)
  have 2: "sum_list (map (\<lambda>kv. passed (snd kv)) ob) =
        sum_list (map (\<lambda>k. sum_list (map (\<lambda>r. parseIntOr0 (rpassed r))
          (filter (\<lambda>r. tag r = k) rs))) (map fst ob))"
    unfolding map_map comp_def
    by (intro arg_cong[where f = sum_list] map_cong refl) (simp add: el sumStat_def)
  have 3: "sum_list (map (\<lambda>kv. failed (snd kv)) ob) =
        sum_list (map (\<lambda>k. sum_list (map (\<lambda>r. parseIntOr0 (rfailed r))
          (filter (\<lambda>r. tag r = k) rs))) (map fst ob))"
    unfolding map_map comp_def
    by (intro arg_cong[where f = sum_list] map_cong refl) (simp add: el sumStat_def)
  show ?thesis
    unfolding sumOver_def 1 2 3 partition_sum[OF d ks]
    by (simp add: sumStat_def sum_list_triv)
qed

lemma sumOver_fresh:
  assumes "safeRecords rs" and "\<forall>r\<in>set rs. tag r \<notin> set objectPrototype"
  shows "sumOver (foldl (bumpBy tag) [] rs) = sumStat rs"
proof (rule sumOver_tags)
  show "distinct (map fst (foldl (bumpBy tag) [] rs))" by (simp add: distinct_foldl_bumpBy)
  show "\<forall>k s. map_of (foldl (bumpBy tag) [] rs) k = Some s \<longrightarrow>
      s = sumStat (filter (\<lambda>r. tag r = k) rs)"
    using assms(1)
    by (auto simp: map_of_foldl_bumpBy foldStat_sumStat safeRecords_filter split: if_splits)
  show "\<forall>r\<in>set rs. map_of (foldl (bumpBy tag) [] rs) (tag r) \<noteq> None"
    using assms(2) by (auto simp: map_of_foldl_bumpBy filter_empty_conv)
qed

lemma platforms_consistent:
  assumes "map_of (aggregate manifest) d = Some e" and "safeRecords (recordsOf manifest d)"
  shows "sumOver (platforms e) = totals e"
proof -
  let ?rs = "recordsOf manifest d"
  have e: "e = foldl stepDay (freshDay d) ?rs"
    using assms(1) by (simp add: map_of_aggregate split: if_splits)
  have "sumOver (platforms e) = sumStat ?rs"
    unfolding e platforms_foldl_stepDay
    using assms(2) by (simp add: freshDay_def sumOver_fresh detectPlatform_own)
  also have "\<dots> = totals e"
    unfolding e using assms(2) by (simp add: fresh_totals foldStat_sumStat)
  finally show ?thesis .
qed

lemma environments_consistent:
  assumes "map_of (aggregate manifest) d = Some e" and "safeRecords (recordsOf manifest d)"
    and "\<forall>r\<in>set (recordsOf manifest d). normalizeEnv (environment r) \<notin> set objectPrototype"
  shows "sumOver (environments e) = totals e"
proof -
  let ?rs = "recordsOf manifest d"
  have e: "e = foldl stepDay (freshDay d) ?rs"
    using assms(1) by (simp add: map_of_aggregate split: if_splits)
  have "sumOver (environments e) = sumStat ?rs"
    unfolding e environments_foldl_stepDay
    using assms(2,3) by (simp add: freshDay_def sumOver_fresh)
  also have "\<dots> = totals e"
    unfolding e using assms(2) by (simp add: fresh_totals foldStat_sumStat)
  finally show ?thesis .
qed

subsection \<open>The run on the parsed manifest\<close>










lemma mainJson_Inl:
  "aggregateJson [] js = Inl x \<Longrightarrow> mainJson now (ManifestJson js) sf = Inl x"
  by (simp add: mainJson_def split: prod.splits)









subsection \<open>Numbers beyond the safe integers\<close>

lemma doubles_examples:
  "jsAdd 9007199254740992 1 = 9007199254740992"
  "toDouble 9007199254740995 = 9007199254740996"
  "parseInt (JStr ''9007199254740993'') = Some 9007199254740992"
  "parseInt (JNum 1000000000000000000000) = Some 1"
  "parseInt (JNum 100000000000000000000000) = Some 1"
  "parseInt (JNum 999999999999999999999) = Some 1"
  "parseInt (JNum 9007199254740991) = Some 9007199254740991"
  by code_simp+

subsection \<open>The scenarios of the specification\<close>

lemma scenario_fresh:
  "mergedEntries [] scenario =
     [\<lparr>date = ''2026-02-18'', totals = \<lparr>runs = 2, passed = 15, failed = 2\<rparr>,
       platforms = [(''android'', \<lparr>runs = 1, passed = 10, failed = 2\<rparr>),
                    (''ios'', \<lparr>runs = 1, passed = 5, failed = 0\<rparr>)],
       environments = [(''staging'', \<lparr>runs = 1, passed = 10, failed = 2\<rparr>),
                       (''sandbox'', \<lparr>runs = 1, passed = 5, failed = 0\<rparr>)]\<rparr>]"
  by code_simp

lemma scenario_retained:
  "map date (mergedEntries (entries stored) scenario) = [''2026-02-01'', ''2026-02-18''] \<and>
   hd (mergedEntries (entries stored) scenario) = oldDay ''2026-02-01'' 3"
  by code_simp

section \<open>The claims\<close>

text \<open>
  C1 (preservation). Let \<open>d\<close> be a date (a string of the shape \<open>YYYY-MM-DD\<close>) for
  which the stored history has the entry \<open>e\<close>, and let no record of the manifest map to
  \<open>d\<close>. Then the run succeeds and the history it writes contains \<open>e\<close> itself, and
  \<open>e\<close> is its only entry for \<open>d\<close>. (Of the shape of \<open>d\<close> the proof uses one
  consequence: \<open>d\<close> is not the key \<open>__proto__\<close>, which \<open>existingMap\<close> never
  holds as an own property.)
\<close>

theorem preservation:
  assumes "isDate d"
    and "e \<in> set (entries h)" and "date e = d"
    and "\<forall>y\<in>set (entries h). date y = d \<longrightarrow> y = e"
    and "\<forall>r\<in>set manifest. extractDate (timestamp r) \<noteq> Some d"
  shows "\<exists>res. main now (Manifest manifest) (Stats h) = Inr res \<and>
           e \<in> set (entries (written res)) \<and>
           (\<forall>x\<in>set (entries (written res)). date x = d \<longrightarrow> x = e)"
proof -
  have none: "recordsOf manifest d = []" using assms(5) by (simp add: recordsOf_empty_iff)
  have np: "date e \<noteq> ''__proto__''"
    using assms(1) isDate_not_proto unfolding assms(3) by blast
  have uniq: "\<forall>y\<in>set (entries h). date y = date e \<longrightarrow> y = e"
    using assms(4) unfolding assms(3) .
  have "map_of (indexByDate (entries h)) (date e) = Some e"
    using assms(2) np uniq by (rule indexByDate_unique)
  then have look: "map_of (mergedMap (entries h) manifest) d = Some e"
    using none assms(3) by (simp add: map_of_mergedMap)
  have "e \<in> set (mergedEntries (entries h) manifest)"
    using look assms(3) by (simp add: in_mergedEntries)
  moreover have "x = e" if "x \<in> set (mergedEntries (entries h) manifest)" "date x = d" for x
    using that look by (simp add: in_mergedEntries)
  ultimately have "e \<in> set (mergedEntries (entries h) manifest) \<and>
      (\<forall>x\<in>set (mergedEntries (entries h) manifest). date x = d \<longrightarrow> x = e)"
    by blast
  then show ?thesis by (simp add: main_Manifest loadHistory_def)
qed

theorem preservation_witness:
  "isDate ''2026-02-01'' \<and> oldDay ''2026-02-01'' 3 \<in> set (entries stored) \<and>
   list_all (\<lambda>r. extractDate (timestamp r) \<noteq> Some ''2026-02-01'') scenario \<and>
   (\<exists>res. main ''t'' (Manifest scenario) (Stats stored) = Inr res \<and>
      oldDay ''2026-02-01'' 3 \<in> set (entries (written res)))"
proof -
  have 1: "isDate ''2026-02-01''" by code_simp
  have 2: "oldDay ''2026-02-01'' 3 \<in> set (entries stored)" by (simp add: stored_def)
  have 3: "date (oldDay ''2026-02-01'' 3) = ''2026-02-01''" by (simp add: oldDay_def)
  have 4: "\<forall>y\<in>set (entries stored). date y = ''2026-02-01'' \<longrightarrow> y = oldDay ''2026-02-01'' 3"
    by (simp add: stored_def oldDay_def)
  have 5: "\<forall>r\<in>set scenario. extractDate (timestamp r) \<noteq> Some ''2026-02-01''"
    by code_simp
  have 6: "list_all (\<lambda>r. extractDate (timestamp r) \<noteq> Some ''2026-02-01'') scenario"
    using 5 by (simp add: list_all_iff)
  from preservation[OF 1 2 3 4 5, of "''t''"] 1 2 6 show ?thesis by blast
qed

text \<open>
  C2 (overwrite, not merge). If at least one record of the manifest maps to the date
  \<open>d\<close>, then, whatever the stored history holds (for \<open>d\<close> or for any other date, or
  whether it exists at all), the entry for \<open>d\<close> in the written history is the entry
  \<open>e\<close> that aggregating the manifest's records for \<open>d\<close> alone produces, and it is the
  only entry for \<open>d\<close>. The stored history does not occur in \<open>e\<close>.
\<close>

theorem overwrite_not_merge:
  assumes "r \<in> set manifest" and "extractDate (timestamp r) = Some d"
  shows "\<exists>res e. main now (Manifest manifest) sf = Inr res \<and>
           aggregate (recordsOf manifest d) = [(d, e)] \<and>
           e \<in> set (entries (written res)) \<and>
           (\<forall>x\<in>set (entries (written res)). date x = d \<longrightarrow> x = e)"
proof -
  let ?old = "entries (fst (loadHistory sf))"
  let ?e = "foldl stepDay (freshDay d) (recordsOf manifest d)"
  have some: "recordsOf manifest d \<noteq> []" using assms by (auto simp: recordsOf_empty_iff)
  have look: "map_of (mergedMap ?old manifest) d = Some ?e"
    using some by (simp add: map_of_mergedMap)
  have de: "date ?e = d" by (simp add: date_foldl_stepDay date_freshDay)
  have "?e \<in> set (mergedEntries ?old manifest)"
    using look de by (simp add: in_mergedEntries)
  moreover have "x = ?e" if "x \<in> set (mergedEntries ?old manifest)" "date x = d" for x
    using that look by (simp add: in_mergedEntries)
  moreover have "aggregate (recordsOf manifest d) = [(d, ?e)]"
    using some by (rule aggregate_recordsOf)
  ultimately have "aggregate (recordsOf manifest d) = [(d, ?e)] \<and>
      ?e \<in> set (mergedEntries ?old manifest) \<and>
      (\<forall>x\<in>set (mergedEntries ?old manifest). date x = d \<longrightarrow> x = ?e)"
    by blast
  then have "\<exists>e. aggregate (recordsOf manifest d) = [(d, e)] \<and>
      e \<in> set (mergedEntries ?old manifest) \<and>
      (\<forall>x\<in>set (mergedEntries ?old manifest). date x = d \<longrightarrow> x = e)"
    by (rule exI)
  then show ?thesis by (simp add: main_Manifest)
qed

theorem overwrite_not_merge_witness:
  "hd scenario \<in> set scenario \<and> extractDate (timestamp (hd scenario)) = Some ''2026-02-18'' \<and>
   oldDay ''2026-02-18'' 7 \<in> set (entries stored) \<and>
   (\<exists>res e. main ''t'' (Manifest scenario) (Stats stored) = Inr res \<and>
      aggregate (recordsOf scenario ''2026-02-18'') = [(''2026-02-18'', e)] \<and>
      totals e = \<lparr>runs = 2, passed = 15, failed = 2\<rparr> \<and>
      e \<in> set (entries (written res)) \<and>
      oldDay ''2026-02-18'' 7 \<notin> set (entries (written res)))"
proof -
  have 1: "hd scenario \<in> set scenario" by (simp add: scenario_def)
  have 2: "extractDate (timestamp (hd scenario)) = Some ''2026-02-18''" by code_simp
  have 3: "oldDay ''2026-02-18'' 7 \<in> set (entries stored)" by (simp add: stored_def)
  from overwrite_not_merge[OF 1 2, of "''t''" "Stats stored"] obtain res e where
    r: "main ''t'' (Manifest scenario) (Stats stored) = Inr res"
       "aggregate (recordsOf scenario ''2026-02-18'') = [(''2026-02-18'', e)]"
       "e \<in> set (entries (written res))"
       "\<forall>x\<in>set (entries (written res)). date x = ''2026-02-18'' \<longrightarrow> x = e"
    by blast
  have "totals (snd (hd (aggregate (recordsOf scenario ''2026-02-18'')))) =
      \<lparr>runs = 2, passed = 15, failed = 2\<rparr>" by code_simp
  then have t: "totals e = \<lparr>runs = 2, passed = 15, failed = 2\<rparr>" using r(2) by simp
  have "oldDay ''2026-02-18'' 7 \<noteq> e" using t by (auto simp: oldDay_def)
  moreover have "date (oldDay ''2026-02-18'' 7) = ''2026-02-18''" by (simp add: oldDay_def)
  ultimately have "oldDay ''2026-02-18'' 7 \<notin> set (entries (written res))" using r(4) by blast
  with 1 2 3 r t show ?thesis by blast
qed

text \<open>
  C3 (sum correctness). Let records of the manifest map to the date \<open>d\<close>, at most
  \<open>2^53 - 1\<close> of them, with parsed \<open>passed\<close> values, and parsed \<open>failed\<close>
  values, that add up in absolute value to at most \<open>2^53 - 1\<close> (\<open>safeRecords\<close>: the
  range in which the sums of the script are exact). Then the freshly computed entry for
  \<open>d\<close> has as totals the number of these records and the sums of their parsed values.
  \<open>platforms\<close> holds exactly the platform tags that records of \<open>d\<close> have, each
  with the same three figures restricted to the records of that platform. Every
  environment tag within \<open>environments\<close> carries those restricted to the records of
  that environment, and every environment tag of a record of \<open>d\<close> is within
  \<open>environments\<close> unless it is a name that \<open>Object.prototype\<close> provides.
\<close>

theorem sum_correctness:
  assumes "recordsOf manifest d \<noteq> []" and "safeRecords (recordsOf manifest d)"
  shows "\<exists>e. map_of (aggregate manifest) d = Some e \<and> date e = d \<and>
           totals e = sumStat (recordsOf manifest d) \<and>
           (\<forall>t. map_of (platforms e) t =
              (if filter (\<lambda>r. detectPlatform (job r) = t) (recordsOf manifest d) = [] then None
               else Some (sumStat (filter (\<lambda>r. detectPlatform (job r) = t)
                                 (recordsOf manifest d))))) \<and>
           (\<forall>t s. map_of (environments e) t = Some s \<longrightarrow>
              s = sumStat (filter (\<lambda>r. normalizeEnv (environment r) = t)
                     (recordsOf manifest d))) \<and>
           (\<forall>t. t \<notin> set objectPrototype \<longrightarrow>
              filter (\<lambda>r. normalizeEnv (environment r) = t) (recordsOf manifest d) \<noteq> [] \<longrightarrow>
              map_of (environments e) t \<noteq> None)"
proof -
  let ?rs = "recordsOf manifest d"
  let ?e = "foldl stepDay (freshDay d) ?rs"
  have look: "map_of (aggregate manifest) d = Some ?e"
    using assms(1) by (simp add: map_of_aggregate)
  have dt: "date ?e = d" by (simp add: date_foldl_stepDay date_freshDay)
  have tot: "totals ?e = sumStat ?rs"
    using assms(2) by (simp add: fresh_totals foldStat_sumStat)
  have pl: "map_of (platforms ?e) t =
      (if filter (\<lambda>r. detectPlatform (job r) = t) ?rs = [] then None
       else Some (sumStat (filter (\<lambda>r. detectPlatform (job r) = t) ?rs)))" for t
    using assms(2) by (simp add: fresh_platforms foldStat_sumStat safeRecords_filter)
  have en: "s = sumStat (filter (\<lambda>r. normalizeEnv (environment r) = t) ?rs)"
    if "map_of (environments ?e) t = Some s" for t s
    using that assms(2)
    by (simp add: fresh_environments foldStat_sumStat safeRecords_filter split: if_splits)
  have pr: "map_of (environments ?e) t \<noteq> None"
    if "t \<notin> set objectPrototype" "filter (\<lambda>r. normalizeEnv (environment r) = t) ?rs \<noteq> []" for t
    using that by (simp add: fresh_environments)
  from look dt tot pl en pr show ?thesis by blast
qed

theorem sum_correctness_witness:
  "recordsOf scenario ''2026-02-18'' \<noteq> [] \<and> safeRecords (recordsOf scenario ''2026-02-18'') \<and>
   (\<exists>e. map_of (aggregate scenario) ''2026-02-18'' = Some e \<and>
        totals e = \<lparr>runs = 2, passed = 15, failed = 2\<rparr> \<and>
        map_of (platforms e) ''android'' = Some \<lparr>runs = 1, passed = 10, failed = 2\<rparr> \<and>
        map_of (platforms e) ''browser'' = None \<and>
        map_of (environments e) ''sandbox'' = Some \<lparr>runs = 1, passed = 5, failed = 0\<rparr>)"
proof -
  let ?rs = "recordsOf scenario ''2026-02-18''"
  have h: "?rs \<noteq> []" by code_simp
  have s: "safeRecords ?rs" by code_simp
  from sum_correctness[OF h s] obtain e where
    e: "map_of (aggregate scenario) ''2026-02-18'' = Some e"
       "totals e = sumStat ?rs"
       "\<forall>t. map_of (platforms e) t =
          (if filter (\<lambda>r. detectPlatform (job r) = t) ?rs = [] then None
           else Some (sumStat (filter (\<lambda>r. detectPlatform (job r) = t) ?rs)))"
       "\<forall>t s. map_of (environments e) t = Some s \<longrightarrow>
          s = sumStat (filter (\<lambda>r. normalizeEnv (environment r) = t) ?rs)"
       "\<forall>t. t \<notin> set objectPrototype \<longrightarrow>
          filter (\<lambda>r. normalizeEnv (environment r) = t) ?rs \<noteq> [] \<longrightarrow>
          map_of (environments e) t \<noteq> None"
    by blast
  have t: "sumStat ?rs = \<lparr>runs = 2, passed = 15, failed = 2\<rparr>" by code_simp
  have a1: "filter (\<lambda>r. detectPlatform (job r) = ''android'') ?rs \<noteq> []" by code_simp
  have a2: "sumStat (filter (\<lambda>r. detectPlatform (job r) = ''android'') ?rs) =
      \<lparr>runs = 1, passed = 10, failed = 2\<rparr>" by code_simp
  have b1: "filter (\<lambda>r. detectPlatform (job r) = ''browser'') ?rs = []" by code_simp
  have pa: "map_of (platforms e) ''android'' = Some \<lparr>runs = 1, passed = 10, failed = 2\<rparr>"
    using e(3) a1 a2 by simp
  have pb: "map_of (platforms e) ''browser'' = None" using e(3) b1 by simp
  have c1: "''sandbox'' \<notin> set objectPrototype" by code_simp
  have c2: "filter (\<lambda>r. normalizeEnv (environment r) = ''sandbox'') ?rs \<noteq> []" by code_simp
  have c3: "sumStat (filter (\<lambda>r. normalizeEnv (environment r) = ''sandbox'') ?rs) =
      \<lparr>runs = 1, passed = 5, failed = 0\<rparr>" by code_simp
  from e(5) c1 c2 obtain x where x: "map_of (environments e) ''sandbox'' = Some x" by blast
  with e(4) c3 have eb: "map_of (environments e) ''sandbox'' = Some \<lparr>runs = 1, passed = 5, failed = 0\<rparr>"
    by simp
  from h s e(1,2) t pa pb eb show ?thesis by auto
qed

text \<open>
  C4 (classification). The platform tag of a record is decided on the lower-cased
  \<open>job\<close> field by the first rule of \<open>platformRules\<close> one of whose words the
  string contains, and is \<open>other\<close> when no rule applies; the environment tag is
  decided on the lower-cased \<open>environment\<close> field by the first rule of
  \<open>environmentRules\<close>, and when no rule applies it is the lower-cased string itself,
  or \<open>unknown\<close> when that string is empty. A missing field counts as the empty
  string.
\<close>

theorem classification:
  "detectPlatform (job r) =
     (case firstRule platformRules (toLowerCase (orEmpty (job r))) of
        Some tag \<Rightarrow> tag
      | None \<Rightarrow> ''other'') \<and>
   normalizeEnv (environment r) =
     (case firstRule environmentRules (toLowerCase (orEmpty (environment r))) of
        Some tag \<Rightarrow> tag
      | None \<Rightarrow>
          if toLowerCase (orEmpty (environment r)) = [] then ''unknown''
          else toLowerCase (orEmpty (environment r)))"
  by (simp add: detectPlatform_def normalizeEnv_def platformRules_def environmentRules_def
      includesStr_contains Let_def)

text \<open>
  C5 (idempotence). For every manifest and every state of the stored history, a run at
  time \<open>t1\<close>, a second run on the same two inputs at time \<open>t2\<close>, and a run at time
  \<open>t3\<close> on the same manifest with the history written by the first run as the stored
  one, all succeed and write the same list of entries; what they write differs in
  \<open>lastUpdated\<close> only.
\<close>

theorem idempotence:
  "\<exists>r1 r2 r3.
     main t1 (Manifest manifest) sf = Inr r1 \<and>
     main t2 (Manifest manifest) sf = Inr r2 \<and>
     main t3 (Manifest manifest) (Stats (written r1)) = Inr r3 \<and>
     entries (written r2) = entries (written r1) \<and>
     entries (written r3) = entries (written r1) \<and>
     written r2 = (written r1)\<lparr>lastUpdated := Some t2\<rparr> \<and>
     written r3 = (written r1)\<lparr>lastUpdated := Some t3\<rparr>"
proof -
  let ?old = "entries (fst (loadHistory sf))"
  obtain r1 where r1: "main t1 (Manifest manifest) sf = Inr r1" by (simp add: main_Manifest)
  obtain r2 where r2: "main t2 (Manifest manifest) sf = Inr r2" by (simp add: main_Manifest)
  obtain r3 where r3: "main t3 (Manifest manifest) (Stats (written r1)) = Inr r3"
    by (simp add: main_Manifest)
  have w1: "written r1 = \<lparr>lastUpdated = Some t1, entries = mergedEntries ?old manifest\<rparr>"
    using r1 by (rule written_main)
  have w2: "written r2 = \<lparr>lastUpdated = Some t2, entries = mergedEntries ?old manifest\<rparr>"
    using r2 by (rule written_main)
  have "written r3 = \<lparr>lastUpdated = Some t3,
      entries = mergedEntries (entries (fst (loadHistory (Stats (written r1))))) manifest\<rparr>"
    using r3 by (rule written_main)
  then have w3: "written r3 = \<lparr>lastUpdated = Some t3, entries = mergedEntries ?old manifest\<rparr>"
    by (simp add: loadHistory_def w1 mergedEntries_idem)
  from r1 r2 r3 show ?thesis by (auto simp: w1 w2 w3)
qed

text \<open>
  C6 (output structure). For every manifest and every state of the stored history, in any
  order, the run succeeds and the dates of the written entries are in ascending order of
  the strings, with no date twice.
\<close>

theorem output_sorted_distinct:
  "\<exists>res. main now (Manifest manifest) sf = Inr res \<and>
     sorted (map date (entries (written res))) \<and>
     distinct (map date (entries (written res)))"
proof -
  let ?m = "mergedMap (entries (fst (loadHistory sf))) manifest"
  have "distinct (keys ?m)" using good_mergedMap[of _ manifest] by (simp add: good_def)
  then have "distinct (sort (keys ?m))" by simp
  then show ?thesis by (simp add: main_Manifest dates_mergedEntries)
qed

text \<open>
  C7 (corrupt history). For every manifest, a run that finds a stored history which does
  not parse succeeds, writes exactly the history that the run without any stored history
  writes, and prints the same lines with the warning added after the first.
\<close>

theorem corrupt_history_recovery:
  "\<exists>res res0 rest.
     main now (Manifest manifest) Corrupt = Inr res \<and>
     main now (Manifest manifest) NoStats = Inr res0 \<and>
     written res = written res0 \<and>
     out res = [ReadEntries (length manifest), CouldNotParse] @ rest \<and>
     out res0 = [ReadEntries (length manifest)] @ rest"
  by (simp add: main_Manifest loadHistory_def)




text \<open>
  C9 (reconciler counting). For a summary whose statistic carries the five counts
  \<open>passed\<close>, \<open>failed\<close>, \<open>broken\<close>, \<open>skipped\<close> and \<open>unknown\<close>, the first
  three of them not negative and with a sum of at most \<open>2^53 - 1\<close>, the recomputed
  counts are \<open>passed\<close>, \<open>failed + broken\<close> and, as the total,
  \<open>passed + failed + broken\<close>.
\<close>

theorem reconciler_counting:
  assumes "0 \<le> p" and "0 \<le> f" and "0 \<le> b" and "p + f + b \<le> maxSafe"
  shows "\<exists>c. countFromSummary
          (Summary (Some \<lparr>st_passed = Some p, st_failed = Some f, st_broken = Some b,
                          st_skipped = Some s, st_unknown = Some u\<rparr>)) = Some c \<and>
        c_passed c = p \<and> c_failed c = f + b \<and> c_total c = p + f + b"
proof -
  have p: "toDouble p = p" and f: "toDouble f = f" and b: "toDouble b = b"
    using assms by (simp_all add: toDouble_safe)
  have 1: "jsAdd f b = f + b" using assms by (simp add: jsAdd_safe)
  have 2: "jsAdd p f = p + f" using assms by (simp add: jsAdd_safe)
  have 3: "jsAdd (p + f) b = p + f + b" using assms by (simp add: jsAdd_safe)
  show ?thesis by (simp add: countFromSummary_def orZero_def p f b 1 2 3)
qed

theorem reconciler_counting_witness:
  "(0::int) \<le> 10 \<and> (0::int) \<le> 2 \<and> (0::int) \<le> 1 \<and> (10::int) + 2 + 1 \<le> maxSafe \<and>
   (\<exists>c. countFromSummary
          (Summary (Some \<lparr>st_passed = Some 10, st_failed = Some 2, st_broken = Some 1,
                          st_skipped = Some 3, st_unknown = Some 0\<rparr>)) = Some c \<and>
        c_passed c = 10 \<and> c_failed c = 3 \<and> c_total c = 13)"
proof -
  have h: "(0::int) \<le> 10" "(0::int) \<le> 2" "(0::int) \<le> 1" "(10::int) + 2 + 1 \<le> maxSafe"
    by (simp_all add: maxSafe_def)
  from reconciler_counting[OF h, of 3 0] h show ?thesis by simp
qed

text \<open>
  C10 (cross-breakdown consistency) at one record whose environment is the word
  \<open>constructor\<close>: the run writes one entry with one run in its totals and in its
  platforms, and with no environment at all, so that the figures of the environments sum
  to zero and not to the totals. (\<open>platforms_consistent\<close> and
  \<open>environments_consistent\<close> above give the cases in which the sums do agree.)
\<close>

theorem cross_breakdown_constructor:
  "\<exists>res e. main now (Manifest constructorManifest) NoStats = Inr res \<and>
     entries (written res) = [e] \<and>
     totals e = \<lparr>runs = 1, passed = 10, failed = 2\<rparr> \<and>
     sumOver (platforms e) = \<lparr>runs = 1, passed = 10, failed = 2\<rparr> \<and>
     environments e = [] \<and>
     sumOver (environments e) = \<lparr>runs = 0, passed = 0, failed = 0\<rparr>"
proof -
  have "mergedEntries [] constructorManifest =
     [\<lparr>date = ''2026-02-18'', totals = \<lparr>runs = 1, passed = 10, failed = 2\<rparr>,
        platforms = [(''android'', \<lparr>runs = 1, passed = 10, failed = 2\<rparr>)],
        environments = []\<rparr>]"
    by code_simp
  then show ?thesis
    by (simp add: main_Manifest loadHistory_def emptyHistory_def sumOver_def)
qed

end
